theory Spec2Isabelle
  imports Main "HOL-Library.Word"
begin

section \<open>Strings\<close>

text \<open>
  A JavaScript string is a sequence of UTF-16 code units; \<open>length\<close> counts code units,
  as \<^verbatim>\<open>String.prototype.length\<close> does. \<open>lit\<close> embeds an ASCII literal of the source.
\<close>

type_synonym jsstring = "16 word list"

definition lit :: "string \<Rightarrow> jsstring" where
  "lit s = map of_char s"

text \<open>
  \<^verbatim>\<open>String.prototype.trim\<close> strips the code units of ECMAScript's WhiteSpace and
  LineTerminator productions from both ends: TAB, LF, VT, FF, CR, SP, NBSP, U+1680,
  U+2000 to U+200A, U+2028, U+2029, U+202F, U+205F, U+3000 and U+FEFF.
\<close>

definition is_ws :: "16 word \<Rightarrow> bool" where
  "is_ws c =
     (c \<in> {0x9, 0xA, 0xB, 0xC, 0xD, 0x20, 0xA0, 0x1680, 0x2028, 0x2029, 0x202F, 0x205F,
           0x3000, 0xFEFF}
      \<or> (0x2000 \<le> c \<and> c \<le> 0x200A))"

definition trim :: "jsstring \<Rightarrow> jsstring" where
  "trim s = rev (dropWhile is_ws (rev (dropWhile is_ws s)))"

text \<open>
  \<^verbatim>\<open>encodeURIComponent\<close> throws a URIError on a string with an unpaired surrogate and
  returns otherwise. Only whether it returns matters to the control flow of the two
  callers, so the model is the predicate ``it returns''.
\<close>

definition is_high :: "16 word \<Rightarrow> bool" where
  "is_high c = (0xD800 \<le> c \<and> c \<le> 0xDBFF)"

definition is_low :: "16 word \<Rightarrow> bool" where
  "is_low c = (0xDC00 \<le> c \<and> c \<le> 0xDFFF)"

fun encodable :: "jsstring \<Rightarrow> bool" where
  "encodable [] = True"
| "encodable [c] = (\<not> is_high c \<and> \<not> is_low c)"
| "encodable (c # d # cs) =
     (if is_high c then is_low d \<and> encodable cs else \<not> is_low c \<and> encodable (d # cs))"

text \<open>
  The message of the URIError is the engine's; V8 words it as below. It is never empty.
\<close>

definition uri_error_message :: jsstring where
  "uri_error_message = lit ''URI malformed''"

section \<open>Data\<close>

text \<open>
  \<^verbatim>\<open>API_KEY = process.env.REACT_APP_OPENWEATHER_KEY\<close> is a string or undefined, fixed for
  the life of the page; it is a parameter \<open>k\<close> of every operation. \<^verbatim>\<open>!API_KEY\<close> holds
  for undefined and for the empty string.
\<close>

definition has_key :: "jsstring option \<Rightarrow> bool" where
  "has_key k = (k \<noteq> None \<and> k \<noteq> Some [])"

record suggestion =
  label :: jsstring
  value' :: jsstring

text \<open>An entry of the geocoding response: \<^verbatim>\<open>{name, state?, country?}\<close>.\<close>

record raw_entry =
  name :: jsstring
  state :: "jsstring option"
  country :: "jsstring option"

text \<open>The weather payload is displayed and never inspected by the operations below.\<close>

datatype weather = Weather jsstring

text \<open>
  The hooks of \<^verbatim>\<open>App\<close> (\<open>city\<close> to \<open>debounceRef\<close>), followed by the part of the browser
  the handlers act on: a clock in milliseconds, the armed timers as triples of timer id,
  due time and the query text the callback closes over, the next timer id
  (\<^verbatim>\<open>setTimeout\<close> returns positive integers), the requests issued so far to each
  endpoint and the number of them not yet answered. A geocoding request is logged as its
  query text and its \<^verbatim>\<open>limit\<close> parameter, a weather request as its place name.
\<close>

record app =
  city :: jsstring
  data :: "weather option"
  error :: jsstring
  loading :: bool
  suggestions :: "suggestion list"
  open' :: bool
  highlight :: int
  debounceRef :: "nat option"
  now :: nat
  next_timer :: nat
  timers :: "(nat \<times> nat \<times> jsstring) list"
  geo_calls :: "(jsstring \<times> nat) list"
  geo_inflight :: nat
  weather_calls :: "jsstring list"
  weather_inflight :: nat

definition init :: app where
  "init = \<lparr> city = lit ''Algiers'', data = None, error = [], loading = False,
            suggestions = [], open' = False, highlight = - 1, debounceRef = None,
            now = 0, next_timer = 1, timers = [], geo_calls = [], geo_inflight = 0,
            weather_calls = [], weather_inflight = 0 \<rparr>"

section \<open>The weather search\<close>

text \<open>
  \<^verbatim>\<open>fetchWeather\<close> up to its \<^verbatim>\<open>await fetch(url)\<close>, as the list of the operations it performs,
  in order. The place is \<^verbatim>\<open>(q ?? city).trim() || 'Algiers'\<close>. When \<^verbatim>\<open>encodeURIComponent\<close>
  throws, the \<^verbatim>\<open>catch\<close> and \<^verbatim>\<open>finally\<close> blocks run at once and no request is issued.
\<close>

datatype op = SetError jsstring | SetData "weather option" | SetLoading bool | Fetch jsstring

fun exec :: "app \<Rightarrow> op \<Rightarrow> app" where
  "exec s (SetError m) = s\<lparr>error := m\<rparr>"
| "exec s (SetData d) = s\<lparr>data := d\<rparr>"
| "exec s (SetLoading b) = s\<lparr>loading := b\<rparr>"
| "exec s (Fetch p) =
     s\<lparr>weather_calls := weather_calls s @ [p], weather_inflight := weather_inflight s + 1\<rparr>"

definition weather_query :: "jsstring option \<Rightarrow> jsstring \<Rightarrow> jsstring" where
  "weather_query q c =
     (let t = trim (case q of None \<Rightarrow> c | Some x \<Rightarrow> x)
      in if t = [] then lit ''Algiers'' else t)"

definition fetchWeather_ops :: "jsstring option \<Rightarrow> jsstring option \<Rightarrow> jsstring \<Rightarrow> op list" where
  "fetchWeather_ops k q c =
     [SetError [], SetData None] @
     (if \<not> has_key k then [SetError (lit ''Missing API key'')]
      else SetLoading True #
        (if encodable (weather_query q c) then [Fetch (weather_query q c)]
         else [SetError uri_error_message, SetLoading False]))"

definition fetchWeather :: "jsstring option \<Rightarrow> jsstring option \<Rightarrow> app \<Rightarrow> app" where
  "fetchWeather k q s = foldl exec s (fetchWeather_ops k q (city s))"

text \<open>
  The rest of \<^verbatim>\<open>fetchWeather\<close>, run when the request is answered: a success with its
  parsed body (\<open>None\<close> is JSON \<^verbatim>\<open>null\<close>), a response that is not \<^verbatim>\<open>ok\<close> with its status
  (as the template literal prints it) and status text, or a rejection of \<^verbatim>\<open>fetch\<close> or
  \<^verbatim>\<open>res.json()\<close> with the message of the error.
\<close>

datatype weather_response =
  WeatherOk "weather option" | WeatherNotOk jsstring jsstring | WeatherThrow jsstring

fun fetchWeather_done :: "weather_response \<Rightarrow> app \<Rightarrow> app" where
  "fetchWeather_done (WeatherOk j) s = s\<lparr>data := j, loading := False\<rparr>"
| "fetchWeather_done (WeatherNotOk st txt) s =
     s\<lparr>error := lit ''Error '' @ st @ lit '': '' @ txt, loading := False\<rparr>"
| "fetchWeather_done (WeatherThrow m) s =
     s\<lparr>error := (if m = [] then lit ''Request failed'' else m), loading := False\<rparr>"

text \<open>
  What the view shows of the three hooks: the button reads ``Loading'' while \<open>loading\<close>,
  the error banner shows a non-empty \<open>error\<close>, the card shows \<open>data\<close>.
\<close>

datatype status = Idle | Loading | Ready weather | Failed jsstring

definition status :: "app \<Rightarrow> status" where
  "status s =
     (if loading s then Loading
      else if error s \<noteq> [] then Failed (error s)
      else case data s of Some d \<Rightarrow> Ready d | None \<Rightarrow> Idle)"

section \<open>The debounced geocoding lookup\<close>

definition clearTimeout :: "nat \<Rightarrow> app \<Rightarrow> app" where
  "clearTimeout i s = s\<lparr>timers := filter (\<lambda>t. fst t \<noteq> i) (timers s)\<rparr>"

text \<open>
  \<^verbatim>\<open>lookup(q)\<close>: nothing without a key; otherwise the timer \<open>debounceRef\<close> holds is cleared
  (when the reference is truthy), a short query empties the list, and any other query
  arms a timer due in 250 ms whose id replaces the reference.
\<close>

definition lookup :: "jsstring option \<Rightarrow> jsstring \<Rightarrow> app \<Rightarrow> app" where
  "lookup k q s =
     (if \<not> has_key k then s
      else
        let s1 = (case debounceRef s of
                    None \<Rightarrow> s
                  | Some i \<Rightarrow> if i \<noteq> 0 then clearTimeout i s else s)
        in if q = [] \<or> length (trim q) < 2
           then s1\<lparr>suggestions := [], open' := False, highlight := - 1\<rparr>
           else s1\<lparr>debounceRef := Some (next_timer s1),
                   timers := timers s1 @ [(next_timer s1, now s1 + 250, q)],
                   next_timer := next_timer s1 + 1\<rparr>)"

text \<open>\<^verbatim>\<open>it.state ? ', ' + it.state : ''\<close>: an undefined or empty field adds nothing.\<close>

fun opt_part :: "jsstring \<Rightarrow> jsstring option \<Rightarrow> jsstring" where
  "opt_part sep None = []"
| "opt_part sep (Some x) = (if x = [] then [] else sep @ x)"

definition to_suggestion :: "raw_entry \<Rightarrow> suggestion" where
  "to_suggestion it =
     \<lparr> label = name it @ opt_part (lit '', '') (state it) @ opt_part (lit '', '') (country it),
       value' = name it @ opt_part (lit '','') (country it) \<rparr>"

text \<open>
  The timer's callback up to \<^verbatim>\<open>await fetch(url)\<close>, with the \<open>q\<close> it closed over: the
  request carries \<^verbatim>\<open>limit=6\<close>; a throwing \<^verbatim>\<open>encodeURIComponent\<close> lands in the \<^verbatim>\<open>catch\<close>.
\<close>

definition lookup_fired :: "jsstring \<Rightarrow> app \<Rightarrow> app" where
  "lookup_fired q s =
     (if encodable q
      then s\<lparr>geo_calls := geo_calls s @ [(q, 6)], geo_inflight := geo_inflight s + 1\<rparr>
      else s\<lparr>suggestions := [], open' := False, highlight := - 1\<rparr>)"

text \<open>
  The rest of the callback, run when the request is answered: \<^verbatim>\<open>fetch\<close> rejected, the
  response was not \<^verbatim>\<open>ok\<close>, the body could not be parsed or mapped (\<^verbatim>\<open>res.json()\<close> rejected
  or \<^verbatim>\<open>.map\<close> threw), or the body is an array of entries (\<open>None\<close> is JSON \<^verbatim>\<open>null\<close>, which
  \<^verbatim>\<open>json || []\<close> reads as the empty array).
\<close>

datatype geo_response = GeoReject | GeoNotOk | GeoBadBody | GeoBody "raw_entry list option"

fun lookup_done :: "geo_response \<Rightarrow> app \<Rightarrow> app" where
  "lookup_done (GeoBody b) s =
     (let items = map to_suggestion (case b of None \<Rightarrow> [] | Some xs \<Rightarrow> xs)
      in s\<lparr>suggestions := items, open' := (length items > 0), highlight := - 1\<rparr>)"
| "lookup_done r s = s\<lparr>suggestions := [], open' := False, highlight := - 1\<rparr>"

definition onChange :: "jsstring option \<Rightarrow> jsstring \<Rightarrow> app \<Rightarrow> app" where
  "onChange k v s = lookup k v (s\<lparr>city := v\<rparr>)"

section \<open>Selection\<close>

definition pick :: "jsstring option \<Rightarrow> suggestion \<Rightarrow> app \<Rightarrow> app" where
  "pick k sg s =
     fetchWeather k (Some (value' sg)) (s\<lparr>city := value' sg, open' := False, highlight := - 1\<rparr>)"

datatype key = ArrowDown | ArrowUp | Enter | Escape | OtherKey

text \<open>The updater passed to \<^verbatim>\<open>setHighlight\<close> by the arrow keys.\<close>

definition move :: "key \<Rightarrow> nat \<Rightarrow> int \<Rightarrow> int" where
  "move e n h =
     (let max = int n - 1
      in if max < 0 then - 1
         else if e = ArrowDown then (if h \<ge> max then 0 else h + 1)
         else if e = ArrowUp then (if h \<le> 0 then max else h - 1)
         else h)"

definition onKeyDown :: "jsstring option \<Rightarrow> key \<Rightarrow> app \<Rightarrow> app" where
  "onKeyDown k e s =
     (if open' s \<and> (e = ArrowDown \<or> e = ArrowUp)
      then s\<lparr>highlight := move e (length (suggestions s)) (highlight s)\<rparr>
      else
        let s1 = (if e = Enter
                  then (if open' s \<and> highlight s \<ge> 0
                           \<and> nat (highlight s) < length (suggestions s)
                        then pick k (suggestions s ! nat (highlight s)) s
                        else fetchWeather k None s)
                  else s)
        in if e = Escape then s1\<lparr>open' := False, highlight := - 1\<rparr> else s1)"

section \<open>Events\<close>

text \<open>
  The option elements and their mouse handlers exist only while the list is rendered
  (\<^verbatim>\<open>open && suggestions.length > 0\<close>), one per index of \<open>suggestions\<close>.
\<close>

definition rendered :: "app \<Rightarrow> nat \<Rightarrow> bool" where
  "rendered s i = (open' s \<and> length (suggestions s) > 0 \<and> i < length (suggestions s))"

text \<open>
  The page is single-threaded: each handler runs to completion on the state the view was
  rendered from, and the view is rendered again before the next event is handled.
  \<open>DocMouseDown inside\<close> is the document's mousedown listener, with whether the wrapper
  contains the target (the wrapper is mounted as long as the component is).
  \<open>ClickSearch\<close> is the button, disabled while \<open>loading\<close>. \<open>Elapse d\<close> lets \<open>d\<close> ms pass.
  \<open>TimerFire i\<close> runs the callback of timer \<open>i\<close>, which the browser does only for an
  armed timer that is due, never before its 250 ms have passed, and at most once. A
  response is delivered only to a request in flight, in any order.
\<close>

datatype event =
    Change jsstring
  | KeyDown key
  | MouseEnter nat
  | MouseLeave nat
  | MouseDown nat
  | DocMouseDown bool
  | ClickSearch
  | Elapse nat
  | TimerFire nat
  | GeoResponse geo_response
  | WeatherResponse weather_response

fun step :: "jsstring option \<Rightarrow> app \<Rightarrow> event \<Rightarrow> app" where
  "step k s (Change v) = onChange k v s"
| "step k s (KeyDown e) = onKeyDown k e s"
| "step k s (MouseEnter i) = (if rendered s i then s\<lparr>highlight := int i\<rparr> else s)"
| "step k s (MouseLeave i) = (if rendered s i then s\<lparr>highlight := - 1\<rparr> else s)"
| "step k s (MouseDown i) = (if rendered s i then pick k (suggestions s ! i) s else s)"
| "step k s (DocMouseDown inside) = (if \<not> inside then s\<lparr>open' := False\<rparr> else s)"
| "step k s ClickSearch = (if loading s then s else fetchWeather k None s)"
| "step k s (Elapse d) = s\<lparr>now := now s + d\<rparr>"
| "step k s (TimerFire i) =
     (case find (\<lambda>t. fst t = i \<and> fst (snd t) \<le> now s) (timers s) of
        None \<Rightarrow> s
      | Some t \<Rightarrow> lookup_fired (snd (snd t)) (clearTimeout i s))"
| "step k s (GeoResponse r) =
     (if geo_inflight s = 0 then s
      else lookup_done r (s\<lparr>geo_inflight := geo_inflight s - 1\<rparr>))"
| "step k s (WeatherResponse r) =
     (if weather_inflight s = 0 then s
      else fetchWeather_done r (s\<lparr>weather_inflight := weather_inflight s - 1\<rparr>))"

definition run :: "jsstring option \<Rightarrow> app \<Rightarrow> event list \<Rightarrow> app" where
  "run k s evs = foldl (step k) s evs"

inductive reachable :: "jsstring option \<Rightarrow> app \<Rightarrow> bool" for k :: "jsstring option" where
  reachable_init: "reachable k init"
| reachable_step: "reachable k s \<Longrightarrow> reachable k (step k s e)"

section \<open>Invariants and traces\<close>

text \<open>
  The selection invariant: the highlighted index is \<open>-1\<close> or an index of the list, and
  the list is open only when it has an entry.
\<close>

definition sugg_inv :: "app \<Rightarrow> bool" where
  "sugg_inv s =
     ((highlight s = - 1 \<or> (0 \<le> highlight s \<and> highlight s < int (length (suggestions s))))
      \<and> (open' s \<longrightarrow> suggestions s \<noteq> []))"

text \<open>
  The timer invariant: timer ids are positive, at most one timer is armed, an armed timer
  is the one \<open>debounceRef\<close> holds, and no timer is armed without a key.
\<close>

definition timer_inv :: "jsstring option \<Rightarrow> app \<Rightarrow> bool" where
  "timer_inv k s =
     (0 < next_timer s
      \<and> length (timers s) \<le> 1
      \<and> (\<forall>t \<in> set (timers s). debounceRef s = Some (fst t) \<and> fst t \<noteq> 0)
      \<and> (has_key k \<or> timers s = []))"

text \<open>A page without a key never leaves this part of its initial state.\<close>

definition nokey_inv :: "app \<Rightarrow> bool" where
  "nokey_inv s =
     (suggestions s = [] \<and> \<not> open' s \<and> highlight s = - 1 \<and> timers s = []
      \<and> geo_calls s = [] \<and> geo_inflight s = 0
      \<and> weather_calls s = [] \<and> weather_inflight s = 0 \<and> \<not> loading s)"

text \<open>
  \<open>within_quiet e evs\<close>: with \<open>e\<close> ms elapsed since the last keystroke, every keystroke of
  \<open>evs\<close> arrives less than 250 ms after the one before it. \<open>last_text v evs\<close> is the text
  of the last keystroke of \<open>evs\<close>, or \<open>v\<close> when it has none.
\<close>

fun within_quiet :: "nat \<Rightarrow> event list \<Rightarrow> bool" where
  "within_quiet e [] = True"
| "within_quiet e (Change v # evs) = (e < 250 \<and> within_quiet 0 evs)"
| "within_quiet e (Elapse d # evs) = within_quiet (e + d) evs"
| "within_quiet e (x # evs) = within_quiet e evs"

fun last_text :: "jsstring \<Rightarrow> event list \<Rightarrow> jsstring" where
  "last_text v [] = v"
| "last_text v (Change w # evs) = last_text w evs"
| "last_text v (x # evs) = last_text v evs"

text \<open>
  The state of a burst of keystrokes, \<open>e\<close> ms after its last keystroke \<open>v\<close>, with \<open>base\<close>
  the requests issued before it: either nothing was requested yet and a timer, when
  armed, carries \<open>v\<close> and is due 250 ms after that keystroke; or the quiet period is
  over, no timer is armed and the one request of the burst asked for \<open>v\<close>.
\<close>

definition burst_inv ::
  "jsstring option \<Rightarrow> app \<Rightarrow> nat \<Rightarrow> jsstring \<Rightarrow> (jsstring \<times> nat) list \<Rightarrow> bool" where
  "burst_inv k s e v base =
     (timer_inv k s
      \<and> ((geo_calls s = base
           \<and> (\<forall>t \<in> set (timers s). snd (snd t) = v \<and> fst (snd t) + e = now s + 250))
          \<or> (timers s = [] \<and> geo_calls s = base @ [(v, 6)] \<and> 250 \<le> e)))"

section \<open>The mapping of entries, as specified\<close>

text \<open>
  The specification's wording of the mapping, to compare \<open>to_suggestion\<close> with: the label
  is the name, the state and the country joined by a comma and a space, and the value is
  the name and the country joined by a comma, each optional field taking part where it is
  present. \<open>stated_suggestion\<close> reads ``present'' as defined; \<open>spec_suggestion\<close> reads it as
  defined and not the empty string.
\<close>

fun join :: "jsstring \<Rightarrow> jsstring list \<Rightarrow> jsstring" where
  "join sep [] = []"
| "join sep [x] = x"
| "join sep (x # y # ys) = x @ sep @ join sep (y # ys)"

fun present :: "jsstring option \<Rightarrow> jsstring list" where
  "present None = []"
| "present (Some x) = [x]"

definition stated_suggestion :: "raw_entry \<Rightarrow> suggestion" where
  "stated_suggestion it =
     \<lparr> label = join (lit '', '') (name it # present (state it) @ present (country it)),
       value' = join (lit '','') (name it # present (country it)) \<rparr>"

fun filled :: "jsstring option \<Rightarrow> jsstring list" where
  "filled None = []"
| "filled (Some x) = (if x = [] then [] else [x])"

definition spec_suggestion :: "raw_entry \<Rightarrow> suggestion" where
  "spec_suggestion it =
     \<lparr> label = join (lit '', '') (name it # filled (state it) @ filled (country it)),
       value' = join (lit '','') (name it # filled (country it)) \<rparr>"

text \<open>An entry whose state is the empty string.\<close>

definition paris_blank :: raw_entry where
  "paris_blank = \<lparr> name = lit ''Paris'', state = Some [], country = Some (lit ''FR'') \<rparr>"

section \<open>Example data\<close>

text \<open>
  A page with a key on which the user typed ``Pa'', waited out the quiet period and got
  two places back: the list is open with nothing highlighted.
\<close>

definition example_key :: "jsstring option" where
  "example_key = Some (lit ''0a1b2c'')"

definition paris :: raw_entry where
  "paris = \<lparr> name = lit ''Paris'', state = None, country = Some (lit ''FR'') \<rparr>"

definition paris_tx :: raw_entry where
  "paris_tx = \<lparr> name = lit ''Paris'', state = Some (lit ''Texas''), country = Some (lit ''US'') \<rparr>"

definition example_trace :: "event list" where
  "example_trace =
     [Change (lit ''Pa''), Elapse 250, TimerFire 1, GeoResponse (GeoBody (Some [paris, paris_tx]))]"

definition example_open :: app where
  "example_open = run example_key init example_trace"

text \<open>A state showing a weather card, as after an answered search.\<close>

definition example_ready :: app where
  "example_ready = init\<lparr>data := Some (Weather (lit ''Algiers: clear sky'')), city := lit ''Paris''\<rparr>"

text \<open>The same page while its geocoding request is still unanswered.\<close>

definition example_pending :: app where
  "example_pending = run example_key init [Change (lit ''Pa''), Elapse 250, TimerFire 1]"

text \<open>
  The rest of a burst of three keystrokes on that page, ``Pa'', ``Par'' and ``Pari'', 100
  and 249 ms apart, with the browser trying every timer along the way; and the page after
  an arrow key and the keystroke ``Par'', its timer still armed.
\<close>

definition example_burst :: "event list" where
  "example_burst =
     [Elapse 100, Change (lit ''Par''), TimerFire 2, Elapse 249, TimerFire 2, TimerFire 3,
      Change (lit ''Pari''), Elapse 250, TimerFire 2, TimerFire 3, TimerFire 4, Elapse 500,
      TimerFire 4]"

definition example_typing :: app where
  "example_typing = run example_key example_open [KeyDown ArrowDown, Change (lit ''Par'')]"

section \<open>Frame and invariant lemmas\<close>

lemma exec_sugg [simp]:
  "suggestions (exec s x) = suggestions s" "open' (exec s x) = open' s"
  "highlight (exec s x) = highlight s" "city (exec s x) = city s"
  "timers (exec s x) = timers s" "debounceRef (exec s x) = debounceRef s"
  "next_timer (exec s x) = next_timer s" "now (exec s x) = now s"
  "geo_calls (exec s x) = geo_calls s" "geo_inflight (exec s x) = geo_inflight s"
  by (cases x; simp)+

lemma foldl_exec_sugg [simp]:
  "suggestions (foldl exec s xs) = suggestions s" "open' (foldl exec s xs) = open' s"
  "highlight (foldl exec s xs) = highlight s" "city (foldl exec s xs) = city s"
  "timers (foldl exec s xs) = timers s" "debounceRef (foldl exec s xs) = debounceRef s"
  "next_timer (foldl exec s xs) = next_timer s" "now (foldl exec s xs) = now s"
  "geo_calls (foldl exec s xs) = geo_calls s" "geo_inflight (foldl exec s xs) = geo_inflight s"
  by (induction xs arbitrary: s; simp)+

lemma fetchWeather_frame [simp]:
  "suggestions (fetchWeather k q s) = suggestions s" "open' (fetchWeather k q s) = open' s"
  "highlight (fetchWeather k q s) = highlight s" "city (fetchWeather k q s) = city s"
  "timers (fetchWeather k q s) = timers s" "debounceRef (fetchWeather k q s) = debounceRef s"
  "next_timer (fetchWeather k q s) = next_timer s" "now (fetchWeather k q s) = now s"
  "geo_calls (fetchWeather k q s) = geo_calls s" "geo_inflight (fetchWeather k q s) = geo_inflight s"
  by (simp_all add: fetchWeather_def)

lemma sugg_inv_init: "sugg_inv init"
  by (simp add: sugg_inv_def init_def)

lemma sugg_inv_fetchWeather: "sugg_inv (fetchWeather k q s) = sugg_inv s"
  by (simp add: sugg_inv_def)

lemma sugg_inv_pick: "sugg_inv (pick k sg s)"
  by (simp add: sugg_inv_def pick_def)

lemma move_range: "h = - 1 \<or> (0 \<le> h \<and> h < int n) \<Longrightarrow>
   move e n h = - 1 \<or> (0 \<le> move e n h \<and> move e n h < int n)"
  by (auto simp: move_def Let_def)

lemma sugg_inv_onKeyDown: "sugg_inv s \<Longrightarrow> sugg_inv (onKeyDown k e s)"
proof -
  assume inv: "sugg_inv s"
  show ?thesis
  proof (cases "open' s \<and> (e = ArrowDown \<or> e = ArrowUp)")
    case True
    then show ?thesis
      using inv move_range[of "highlight s" "length (suggestions s)" e]
      by (simp add: onKeyDown_def sugg_inv_def)
  next
    case False
    show ?thesis
    proof (cases e)
      case Enter
      then show ?thesis using inv
        by (simp add: onKeyDown_def sugg_inv_pick sugg_inv_fetchWeather)
    next
      case Escape
      then show ?thesis by (simp add: onKeyDown_def sugg_inv_def)
    qed (use False inv in \<open>simp_all add: onKeyDown_def\<close>)
  qed
qed

lemma sugg_inv_lookup: "sugg_inv s \<Longrightarrow> sugg_inv (lookup k q s)"
  by (auto simp: sugg_inv_def lookup_def Let_def clearTimeout_def split: option.splits)

lemma sugg_inv_onChange: "sugg_inv s \<Longrightarrow> sugg_inv (onChange k v s)"
  unfolding onChange_def by (rule sugg_inv_lookup) (simp add: sugg_inv_def)

lemma sugg_inv_lookup_fired: "sugg_inv s \<Longrightarrow> sugg_inv (lookup_fired q s)"
  by (auto simp: sugg_inv_def lookup_fired_def)

lemma sugg_inv_lookup_done: "sugg_inv (lookup_done r s)"
  by (cases r) (auto simp: sugg_inv_def Let_def)

lemma sugg_inv_fetchWeather_done: "sugg_inv s \<Longrightarrow> sugg_inv (fetchWeather_done r s)"
  by (cases r) (auto simp: sugg_inv_def)

lemma sugg_inv_step: "sugg_inv s \<Longrightarrow> sugg_inv (step k s e)"
proof (cases e)
  case (TimerFire i)
  assume "sugg_inv s"
  then have "sugg_inv (clearTimeout i s)" by (simp add: sugg_inv_def clearTimeout_def)
  then show ?thesis using TimerFire \<open>sugg_inv s\<close>
    by (auto split: option.splits intro: sugg_inv_lookup_fired)
next
  case (GeoResponse r)
  assume "sugg_inv s"
  then show ?thesis using GeoResponse by (simp add: sugg_inv_lookup_done)
next
  case (WeatherResponse r)
  assume "sugg_inv s"
  then have "sugg_inv (s\<lparr>weather_inflight := weather_inflight s - 1\<rparr>)" by (simp add: sugg_inv_def)
  then show ?thesis using WeatherResponse \<open>sugg_inv s\<close>
    by (auto intro: sugg_inv_fetchWeather_done)
qed (auto simp: sugg_inv_onChange sugg_inv_onKeyDown sugg_inv_pick sugg_inv_fetchWeather rendered_def, auto simp: sugg_inv_def)

lemma reachable_sugg_inv: "reachable k s \<Longrightarrow> sugg_inv s"
  by (induction rule: reachable.induct) (auto intro: sugg_inv_init sugg_inv_step)

lemma exec_env [simp]:
  "weather_calls (exec s x) = weather_calls s @ (case x of Fetch p \<Rightarrow> [p] | _ \<Rightarrow> [])"
  "weather_inflight (exec s x) = weather_inflight s + (case x of Fetch p \<Rightarrow> 1 | _ \<Rightarrow> 0)"
  by (cases x; simp)+

lemma timers_single:
  "timer_inv k s \<Longrightarrow> timers s = [] \<or> (\<exists>t. timers s = [t] \<and> debounceRef s = Some (fst t) \<and> fst t \<noteq> 0)"
  by (cases "timers s"; cases "tl (timers s)") (auto simp: timer_inv_def)

lemma timer_inv_frame:
  "timers s' = timers s \<Longrightarrow> debounceRef s' = debounceRef s \<Longrightarrow> next_timer s' = next_timer s
   \<Longrightarrow> timer_inv k s \<Longrightarrow> timer_inv k s'"
  by (simp add: timer_inv_def)

lemma timer_inv_init: "timer_inv k init"
  by (simp add: timer_inv_def init_def)

lemma lookup_timers:
  assumes "timer_inv k s"
  shows "timer_inv k (lookup k q s)"
    and "timers (lookup k q s) = [] \<or> (has_key k \<and> \<not> (q = [] \<or> length (trim q) < 2) \<and> timers (lookup k q s) = [(next_timer s, now s + 250, q)])"
    and "geo_calls (lookup k q s) = geo_calls s" and "geo_inflight (lookup k q s) = geo_inflight s"
    and "now (lookup k q s) = now s"
  using timers_single[OF assms] assms
  by (auto simp: lookup_def Let_def clearTimeout_def timer_inv_def split: option.splits)

lemma lookup_short:
  assumes "timer_inv k s" "has_key k" "q = [] \<or> length (trim q) < 2"
  shows "timers (lookup k q s) = []" "suggestions (lookup k q s) = []" "\<not> open' (lookup k q s)"
    "highlight (lookup k q s) = - 1"
  using timers_single[OF assms(1)] assms
  by (auto simp: lookup_def Let_def clearTimeout_def split: option.splits)

lemma onKeyDown_frame [simp]:
  "timers (onKeyDown k e s) = timers s" "debounceRef (onKeyDown k e s) = debounceRef s"
  "next_timer (onKeyDown k e s) = next_timer s" "now (onKeyDown k e s) = now s"
  "geo_calls (onKeyDown k e s) = geo_calls s" "geo_inflight (onKeyDown k e s) = geo_inflight s"
  by (simp_all add: onKeyDown_def Let_def pick_def)

lemma pick_frame [simp]:
  "timers (pick k sg s) = timers s" "debounceRef (pick k sg s) = debounceRef s"
  "next_timer (pick k sg s) = next_timer s" "now (pick k sg s) = now s"
  "geo_calls (pick k sg s) = geo_calls s" "geo_inflight (pick k sg s) = geo_inflight s"
  by (simp_all add: pick_def)

lemma lookup_done_frame [simp]:
  "timers (lookup_done r s) = timers s" "debounceRef (lookup_done r s) = debounceRef s"
  "next_timer (lookup_done r s) = next_timer s" "now (lookup_done r s) = now s"
  "geo_calls (lookup_done r s) = geo_calls s" "geo_inflight (lookup_done r s) = geo_inflight s"
  "error (lookup_done r s) = error s" "data (lookup_done r s) = data s"
  "loading (lookup_done r s) = loading s" "city (lookup_done r s) = city s"
  "weather_calls (lookup_done r s) = weather_calls s"
  "weather_inflight (lookup_done r s) = weather_inflight s"
  by (cases r; simp add: Let_def)+

lemma fetchWeather_done_frame [simp]:
  "timers (fetchWeather_done r s) = timers s" "debounceRef (fetchWeather_done r s) = debounceRef s"
  "next_timer (fetchWeather_done r s) = next_timer s" "now (fetchWeather_done r s) = now s"
  "geo_calls (fetchWeather_done r s) = geo_calls s"
  "geo_inflight (fetchWeather_done r s) = geo_inflight s"
  by (cases r; simp)+

text \<open>An event other than a keystroke, the clock or a timer leaves the timers alone.\<close>

lemma step_frame:
  assumes "\<forall>v. x \<noteq> Change v" "\<forall>i. x \<noteq> TimerFire i"
  shows "timers (step k s x) = timers s" "debounceRef (step k s x) = debounceRef s"
    "next_timer (step k s x) = next_timer s" "geo_calls (step k s x) = geo_calls s"
    "\<forall>d. x \<noteq> Elapse d \<Longrightarrow> now (step k s x) = now s"
  using assms by (cases x; simp)+

lemma timer_inv_fire: "timer_inv k s \<Longrightarrow> timer_inv k (step k s (TimerFire i))"
  using le_trans[OF length_filter_le, of "timers s" 1 "\<lambda>t. fst t \<noteq> i"]
  by (auto simp: timer_inv_def lookup_fired_def clearTimeout_def split: option.splits)

lemma timer_inv_onChange: "timer_inv k s \<Longrightarrow> timer_inv k (onChange k v s)"
  unfolding onChange_def
  by (rule lookup_timers(1)) (simp add: timer_inv_def)

lemma timer_inv_step: "timer_inv k s \<Longrightarrow> timer_inv k (step k s x)"
proof -
  assume inv: "timer_inv k s"
  show ?thesis
  proof (cases x)
    case (Change v)
    then show ?thesis using inv by (simp add: timer_inv_onChange)
  next
    case (TimerFire i)
    then show ?thesis using inv timer_inv_fire by blast
  qed (use inv in \<open>simp_all add: timer_inv_def\<close>)
qed

lemma reachable_timer_inv: "reachable k s \<Longrightarrow> timer_inv k s"
  by (induction rule: reachable.induct) (auto intro: timer_inv_init timer_inv_step)

lemma fetchWeather_nokey:
  "\<not> has_key k \<Longrightarrow> fetchWeather k q s = s\<lparr>error := lit ''Missing API key'', data := None\<rparr>"
  by (simp add: fetchWeather_def fetchWeather_ops_def)

lemma nokey_inv_init: "nokey_inv init"
  by (simp add: nokey_inv_def init_def)

lemma nokey_inv_step:
  assumes "\<not> has_key k" "nokey_inv s"
  shows "nokey_inv (step k s x)"
  using assms
  by (cases x)
     (simp_all add: nokey_inv_def onChange_def lookup_def onKeyDown_def pick_def
        fetchWeather_nokey rendered_def)

lemma reachable_nokey_inv: "reachable k s \<Longrightarrow> \<not> has_key k \<Longrightarrow> nokey_inv s"
  by (induction rule: reachable.induct) (auto intro: nokey_inv_init nokey_inv_step)

lemma reachable_run: "reachable k s \<Longrightarrow> reachable k (run k s evs)"
  unfolding run_def
  by (induction evs arbitrary: s) (auto intro: reachable_step)

lemma run_Cons: "run k s (x # evs) = run k (step k s x) evs"
  by (simp add: run_def)

lemma run_Nil: "run k s [] = s"
  by (simp add: run_def)

text \<open>A keystroke starts a burst, whatever was pending.\<close>

lemma burst_onChange:
  assumes "timer_inv k s"
  shows "burst_inv k (onChange k v s) 0 v (geo_calls s)"
proof -
  let ?s = "s\<lparr>city := v\<rparr>"
  have inv: "timer_inv k ?s" using assms by (simp add: timer_inv_def)
  have "timer_inv k (lookup k v ?s)" by (rule lookup_timers(1)[OF inv])
  moreover have "geo_calls (lookup k v ?s) = geo_calls s"
    using lookup_timers(3)[OF inv] by simp
  moreover have "\<forall>t \<in> set (timers (lookup k v ?s)).
      snd (snd t) = v \<and> fst (snd t) + 0 = now (lookup k v ?s) + 250"
    using lookup_timers(2)[OF inv, of v] lookup_timers(5)[OF inv, of v] by auto
  ultimately show ?thesis by (simp add: burst_inv_def onChange_def)
qed

lemma burst_Change:
  assumes "burst_inv k s e v base" "e < 250"
  shows "burst_inv k (step k s (Change w)) 0 w base"
proof -
  from assms have "timer_inv k s" "geo_calls s = base" by (auto simp: burst_inv_def)
  then show ?thesis using burst_onChange[of k s w] by simp
qed

lemma burst_Elapse:
  assumes "burst_inv k s e v base"
  shows "burst_inv k (step k s (Elapse d)) (e + d) v base"
  using assms by (auto simp: burst_inv_def timer_inv_def)

lemma burst_TimerFire:
  assumes "burst_inv k s e v base"
  shows "burst_inv k (step k s (TimerFire i)) e v base"
proof (cases "find (\<lambda>t. fst t = i \<and> fst (snd t) \<le> now s) (timers s)")
  case None
  then show ?thesis using assms by simp
next
  case (Some t)
  from assms have inv: "timer_inv k s" by (simp add: burst_inv_def)
  from Some have t: "t \<in> set (timers s)" "fst t = i" "fst (snd t) \<le> now s"
    by (auto simp: find_Some_iff)
  with timers_single[OF inv] have single: "timers s = [t]" by auto
  with assms have phase: "geo_calls s = base" "snd (snd t) = v" "fst (snd t) + e = now s + 250"
    by (auto simp: burst_inv_def)
  from phase(3) t(3) have late: "250 \<le> e" by simp
  have inv': "timer_inv k (step k s (TimerFire i))" by (rule timer_inv_fire[OF inv])
  have gone: "timers (step k s (TimerFire i)) = []"
    using Some single t(2) by (simp add: lookup_fired_def clearTimeout_def)
  have calls: "geo_calls (step k s (TimerFire i)) = base
      \<or> geo_calls (step k s (TimerFire i)) = base @ [(v, 6)]"
    using Some phase by (simp add: lookup_fired_def clearTimeout_def)
  show ?thesis using inv' gone calls late by (auto simp: burst_inv_def)
qed

lemma burst_other:
  assumes "burst_inv k s e v base" "\<forall>w. x \<noteq> Change w" "\<forall>d. x \<noteq> Elapse d"
  shows "burst_inv k (step k s x) e v base"
proof (cases "\<exists>i. x = TimerFire i")
  case True
  then show ?thesis using assms burst_TimerFire by blast
next
  case False
  then have nf: "\<forall>i. x \<noteq> TimerFire i" by simp
  have "timer_inv k (step k s x)" using assms(1) by (simp add: burst_inv_def timer_inv_step)
  then show ?thesis using assms(1) step_frame[OF assms(2) nf, of k s] assms(3)
    by (simp add: burst_inv_def)
qed

lemma within_quiet_other:
  "\<forall>w. x \<noteq> Change w \<Longrightarrow> \<forall>d. x \<noteq> Elapse d
   \<Longrightarrow> within_quiet e (x # evs) = within_quiet e evs"
  by (cases x) auto

lemma last_text_other: "\<forall>w. x \<noteq> Change w \<Longrightarrow> last_text v (x # evs) = last_text v evs"
  by (cases x) auto

lemma burst_run:
  "burst_inv k s e v base \<Longrightarrow> within_quiet e evs
   \<Longrightarrow> \<exists>e'. burst_inv k (run k s evs) e' (last_text v evs) base"
proof (induction evs arbitrary: s e v)
  case Nil
  then show ?case by (auto simp: run_Nil)
next
  case (Cons x evs)
  consider (change) w where "x = Change w" | (elapse) d where "x = Elapse d"
    | (other) "\<forall>w. x \<noteq> Change w" "\<forall>d. x \<noteq> Elapse d"
    by blast
  then show ?case
  proof cases
    case change
    with Cons.prems have "burst_inv k (step k s x) 0 w base" "within_quiet 0 evs"
      using burst_Change[of k s e v base w] by auto
    from Cons.IH[OF this] show ?thesis using change by (simp add: run_Cons)
  next
    case elapse
    with Cons.prems have "burst_inv k (step k s x) (e + d) v base" "within_quiet (e + d) evs"
      using burst_Elapse[of k s e v base d] by auto
    from Cons.IH[OF this] show ?thesis using elapse by (simp add: run_Cons)
  next
    case other
    have "burst_inv k (step k s x) e v base"
      by (rule burst_other[OF Cons.prems(1) other])
    moreover have "within_quiet e evs"
      using Cons.prems(2) within_quiet_other[OF other] by simp
    ultimately have "\<exists>e'. burst_inv k (run k (step k s x) evs) e' (last_text v evs) base"
      by (rule Cons.IH)
    then show ?thesis by (simp only: run_Cons last_text_other[OF other(1)])
  qed
qed

lemma burst_calls:
  "burst_inv k s e v base \<Longrightarrow> geo_calls s = base \<or> geo_calls s = base @ [(v, 6)]"
  by (auto simp: burst_inv_def)

lemma quiet_run:
  "timers s = [] \<Longrightarrow> \<forall>v. Change v \<notin> set evs
   \<Longrightarrow> timers (run k s evs) = [] \<and> geo_calls (run k s evs) = geo_calls s"
proof (induction evs arbitrary: s)
  case Nil
  then show ?case by (simp add: run_Nil)
next
  case (Cons x evs)
  then have nc: "\<forall>v. x \<noteq> Change v" by auto
  have "timers (step k s x) = [] \<and> geo_calls (step k s x) = geo_calls s"
  proof (cases "\<exists>i. x = TimerFire i")
    case True
    then show ?thesis using Cons.prems(1) by auto
  next
    case False
    then show ?thesis using step_frame[OF nc, of k s] Cons.prems(1) by simp
  qed
  then show ?case using Cons.IH[of "step k s x"] Cons.prems(2) by (simp add: run_Cons)
qed

lemma lit_nonempty: "lit (c # cs) \<noteq> []"
  by (simp add: lit_def)

lemma foldl_exec_loading:
  "\<forall>b. SetLoading b \<notin> set xs \<Longrightarrow> loading (foldl exec s xs) = loading s"
proof (induction xs arbitrary: s)
  case Nil
  then show ?case by simp
next
  case (Cons x xs)
  then have "loading (exec s x) = loading s" by (cases x) auto
  with Cons show ?case by simp
qed

lemma nokey_ops:
  "\<not> has_key k \<Longrightarrow>
   fetchWeather_ops k q c = [SetError [], SetData None, SetError (lit ''Missing API key'')]"
  by (simp add: fetchWeather_ops_def)

lemma encodable_Algiers: "encodable (lit ''Algiers'')"
  by (simp add: lit_def is_high_def is_low_def)

lemma join_filled:
  "join sep (x # filled f @ fs) =
     x @ opt_part sep f @ (if fs = [] then [] else sep @ join sep fs)"
  by (cases f; cases fs) auto

lemma join_filled1: "join sep (x # filled f) = x @ opt_part sep f"
  using join_filled[of sep x f "[]"] by simp

lemma join_single_filled:
  "(if filled f = [] then [] else sep @ join sep (filled f)) = opt_part sep f"
  by (cases f) auto

lemma to_suggestion_spec: "to_suggestion it = spec_suggestion it"
  by (simp add: to_suggestion_def spec_suggestion_def join_filled join_filled1
      join_single_filled)

lemma filled_present: "f \<noteq> Some [] \<Longrightarrow> filled f = present f"
  by (cases f) auto

lemma spec_stated:
  "state it \<noteq> Some [] \<Longrightarrow> country it \<noteq> Some [] \<Longrightarrow> spec_suggestion it = stated_suggestion it"
  by (simp add: spec_suggestion_def stated_suggestion_def filled_present)

lemma lookup_geo_calls: "geo_calls (lookup k q s) = geo_calls s"
  by (simp add: lookup_def Let_def clearTimeout_def split: option.splits)

lemma limit_step:
  assumes "\<forall>c \<in> set (geo_calls s). snd c = 6"
  shows "\<forall>c \<in> set (geo_calls (step k s x)). snd c = 6"
proof (cases "(\<exists>v. x = Change v) \<or> (\<exists>i. x = TimerFire i)")
  case True
  then show ?thesis using assms
    by (auto simp: onChange_def lookup_geo_calls lookup_fired_def clearTimeout_def
        split: option.splits if_splits)
next
  case False
  then show ?thesis using assms step_frame(4)[of x k s] by simp
qed

lemma reachable_limit: "reachable k s \<Longrightarrow> \<forall>c \<in> set (geo_calls s). snd c = 6"
proof (induction rule: reachable.induct)
  case reachable_init
  then show ?case by (simp add: init_def)
next
  case (reachable_step s e)
  then show ?case by (intro limit_step)
qed

lemma fire_changes:
  assumes "timer_inv k s" "step k s (TimerFire i) \<noteq> s"
  shows "debounceRef s = Some i"
proof (cases "find (\<lambda>t. fst t = i \<and> fst (snd t) \<le> now s) (timers s)")
  case None
  then show ?thesis using assms(2) by simp
next
  case (Some t)
  then have "t \<in> set (timers s)" "fst t = i" by (auto simp: find_Some_iff)
  then show ?thesis using assms(1) by (auto simp: timer_inv_def)
qed

section \<open>The example state\<close>

lemma example_open_state:
  "example_open =
     \<lparr> city = lit ''Pa'', data = None, error = [], loading = False,
       suggestions = [\<lparr> label = lit ''Paris, FR'', value' = lit ''Paris,FR'' \<rparr>,
                      \<lparr> label = lit ''Paris, Texas, US'', value' = lit ''Paris,US'' \<rparr>],
       open' = True, highlight = - 1, debounceRef = Some 1,
       now = 250, next_timer = 2, timers = [], geo_calls = [(lit ''Pa'', 6)], geo_inflight = 0,
       weather_calls = [], weather_inflight = 0 \<rparr>"
  by code_simp

lemma example_open_reachable: "reachable example_key example_open"
  unfolding example_open_def by (rule reachable_run[OF reachable_init])

lemma example_pending_state:
  "example_pending =
     \<lparr> city = lit ''Pa'', data = None, error = [], loading = False,
       suggestions = [], open' = False, highlight = - 1, debounceRef = Some 1,
       now = 250, next_timer = 2, timers = [], geo_calls = [(lit ''Pa'', 6)], geo_inflight = 1,
       weather_calls = [], weather_inflight = 0 \<rparr>"
  by code_simp

lemma example_typing_state:
  "example_typing =
     \<lparr> city = lit ''Par'', data = None, error = [], loading = False,
       suggestions = [\<lparr> label = lit ''Paris, FR'', value' = lit ''Paris,FR'' \<rparr>,
                      \<lparr> label = lit ''Paris, Texas, US'', value' = lit ''Paris,US'' \<rparr>],
       open' = True, highlight = 0, debounceRef = Some 2,
       now = 250, next_timer = 3, timers = [(2, 500, lit ''Par'')],
       geo_calls = [(lit ''Pa'', 6)], geo_inflight = 0,
       weather_calls = [], weather_inflight = 0 \<rparr>"
  by code_simp

lemma example_typing_reachable: "reachable example_key example_typing"
  unfolding example_typing_def by (rule reachable_run[OF example_open_reachable])

section \<open>The claims\<close>

text \<open>
  Claim C1. At every reachable state the highlighted index is \<open>-1\<close> or a valid index
  into the items, and the list is open only if it has an item. The invariant holds
  initially and every event preserves it: input change, the timer's callback, a
  geocoding response (success or failure), the arrow keys, Enter, Escape, a pick, mouse
  hover and leave, and a click outside.
\<close>

theorem suggestion_invariant:
  "sugg_inv init
   \<and> (\<forall>s e. sugg_inv s \<longrightarrow> sugg_inv (step k s e))
   \<and> (\<forall>s. reachable k s \<longrightarrow> sugg_inv s)"
  using sugg_inv_init sugg_inv_step reachable_sugg_inv by blast

theorem suggestion_invariant_witness:
  "sugg_inv (step example_key example_open (KeyDown ArrowUp))
   \<and> highlight (step example_key example_open (KeyDown ArrowUp)) = 1
   \<and> open' (step example_key example_open (KeyDown ArrowUp))
   \<and> length (suggestions (step example_key example_open (KeyDown ArrowUp))) = 2"
proof -
  have r: "reachable example_key (step example_key example_open (KeyDown ArrowUp))"
    by (rule reachable_step[OF example_open_reachable])
  have "sugg_inv (step example_key example_open (KeyDown ArrowUp))"
    using suggestion_invariant[of example_key] r by blast
  then show ?thesis
    by (simp add: example_open_state onKeyDown_def move_def)
qed

text \<open>
  Claim C2. Without the access credential, every invocation of the weather search ends in
  the Failed status with the exact message ``Missing API key'' and issues no network
  call: the search performs no fetch, and the page without a key has issued no request
  to either endpoint and has none in flight and no timer armed.
\<close>

theorem missing_key_short_circuit:
  assumes "\<not> has_key k" "reachable k s"
  shows "status (fetchWeather k q s) = Failed (lit ''Missing API key'')
       \<and> error (fetchWeather k q s) = lit ''Missing API key''
       \<and> (\<forall>p. Fetch p \<notin> set (fetchWeather_ops k q (city s)))
       \<and> weather_calls (fetchWeather k q s) = [] \<and> weather_inflight (fetchWeather k q s) = 0
       \<and> geo_calls (fetchWeather k q s) = [] \<and> geo_inflight (fetchWeather k q s) = 0
       \<and> timers (fetchWeather k q s) = []"
proof -
  have inv: "nokey_inv s" by (rule reachable_nokey_inv[OF assms(2) assms(1)])
  have eq: "fetchWeather k q s = s\<lparr>error := lit ''Missing API key'', data := None\<rparr>"
    by (rule fetchWeather_nokey[OF assms(1)])
  have "status (fetchWeather k q s) = Failed (lit ''Missing API key'')"
    using inv by (simp add: eq status_def nokey_inv_def lit_def)
  moreover have "\<forall>p. Fetch p \<notin> set (fetchWeather_ops k q (city s))"
    by (simp add: nokey_ops[OF assms(1)])
  ultimately show ?thesis using inv by (simp add: eq nokey_inv_def)
qed

theorem missing_key_short_circuit_witness:
  "\<not> has_key None
   \<and> status (fetchWeather None (Some (lit ''Paris'')) init) = Failed (lit ''Missing API key'')
   \<and> weather_calls (fetchWeather None (Some (lit ''Paris'')) init) = []
   \<and> geo_calls (fetchWeather None (Some (lit ''Paris'')) init) = []"
proof -
  have k: "\<not> has_key None" by (simp add: has_key_def)
  show ?thesis
    using k missing_key_short_circuit[OF k reachable_init, where q = "Some (lit ''Paris'')"] by simp
qed

text \<open>
  Claim C7, as stated: every invocation of the search whose argument trims to the empty
  string issues exactly one weather request for the default place. Without a key the
  search of three spaces issues none.
\<close>

theorem default_place_counterexample:
  "trim (lit ''   '') = []
   \<and> weather_calls (fetchWeather None (Some (lit ''   '')) init) = weather_calls init
   \<and> weather_calls (fetchWeather None (Some (lit ''   '')) init)
       \<noteq> weather_calls init @ [lit ''Algiers'']"
  by (simp add: fetchWeather_nokey has_key_def trim_def lit_def is_ws_def)

text \<open>
  Claim C7, amended: when the access credential is present, every invocation of the
  search whose argument (the text passed, or the input's text when none is passed) trims
  to the empty string substitutes the default place name ``Algiers'' and issues exactly
  one weather request, for that place.
\<close>

theorem default_place:
  assumes "has_key k" "trim (case q of None \<Rightarrow> city s | Some x \<Rightarrow> x) = []"
  shows "weather_query q (city s) = lit ''Algiers''
       \<and> fetchWeather_ops k q (city s)
           = [SetError [], SetData None, SetLoading True, Fetch (lit ''Algiers'')]
       \<and> weather_calls (fetchWeather k q s) = weather_calls s @ [lit ''Algiers'']
       \<and> weather_inflight (fetchWeather k q s) = weather_inflight s + 1"
proof -
  have wq: "weather_query q (city s) = lit ''Algiers''"
    using assms(2) by (simp add: weather_query_def)
  have ops: "fetchWeather_ops k q (city s)
           = [SetError [], SetData None, SetLoading True, Fetch (lit ''Algiers'')]"
    using assms(1) by (simp add: fetchWeather_ops_def wq encodable_Algiers)
  show ?thesis using wq ops by (simp add: fetchWeather_def)
qed

theorem default_place_witness:
  "has_key example_key \<and> trim (lit ''   '') = []
   \<and> weather_calls (fetchWeather example_key (Some (lit ''   '')) init) = [lit ''Algiers'']
   \<and> weather_inflight (fetchWeather example_key (Some (lit ''   '')) init) = 1"
proof -
  have k: "has_key example_key" by (simp add: has_key_def example_key_def lit_def)
  have t: "trim (lit ''   '') = []" by (simp add: trim_def lit_def is_ws_def)
  show ?thesis
    using k t default_place[where k = example_key and q = "Some (lit ''   '')" and s = init] by (simp add: init_def)
qed

text \<open>
  Claim C10. Every invocation of the weather search clears the previous error and result
  first, whatever the credential: its first two operations are the two clears, and its
  outcome does not depend on the error and result it started from. Hence, without a
  credential, the result shown before is discarded (the status is not Ready) and
  \<open>loading\<close> is never set: no operation of the invocation sets it, and it keeps its
  value through every prefix of the invocation.
\<close>

theorem search_clears_first:
  "take 2 (fetchWeather_ops k q c) = [SetError [], SetData None]
   \<and> fetchWeather k q (s\<lparr>error := e, data := d\<rparr>) = fetchWeather k q s
   \<and> (\<not> has_key k \<longrightarrow>
        data (fetchWeather k q s) = None
        \<and> (\<forall>w. status (fetchWeather k q s) \<noteq> Ready w)
        \<and> SetLoading True \<notin> set (fetchWeather_ops k q c)
        \<and> (\<forall>n. loading (foldl exec s (take n (fetchWeather_ops k q c))) = loading s))"
proof -
  have first: "take 2 (fetchWeather_ops k q c) = [SetError [], SetData None]"
    by (simp add: fetchWeather_ops_def)
  have indep: "fetchWeather k q (s\<lparr>error := e, data := d\<rparr>) = fetchWeather k q s"
    by (simp add: fetchWeather_def fetchWeather_ops_def)
  have nokey: "data (fetchWeather k q s) = None
        \<and> (\<forall>w. status (fetchWeather k q s) \<noteq> Ready w)
        \<and> SetLoading True \<notin> set (fetchWeather_ops k q c)
        \<and> (\<forall>n. loading (foldl exec s (take n (fetchWeather_ops k q c))) = loading s)"
    if k: "\<not> has_key k"
  proof -
    have no_loading: "\<forall>b. SetLoading b \<notin> set (fetchWeather_ops k q c)"
      by (simp add: nokey_ops[OF k])
    have "loading (foldl exec s (take n (fetchWeather_ops k q c))) = loading s" for n
      using no_loading by (intro foldl_exec_loading) (auto dest: in_set_takeD)
    moreover have "data (fetchWeather k q s) = None"
      by (simp add: fetchWeather_nokey[OF k])
    moreover have "status (fetchWeather k q s) \<noteq> Ready w" for w
      by (simp add: fetchWeather_nokey[OF k] status_def lit_def)
    ultimately show ?thesis using no_loading by blast
  qed
  from first indep nokey show ?thesis by blast
qed

theorem search_clears_first_witness:
  "\<not> has_key None
   \<and> status example_ready = Ready (Weather (lit ''Algiers: clear sky''))
   \<and> data (fetchWeather None None example_ready) = None
   \<and> status (fetchWeather None None example_ready) = Failed (lit ''Missing API key'')
   \<and> loading (foldl exec example_ready (take 2 (fetchWeather_ops None None (lit ''Paris'')))) = False"
proof -
  have k: "\<not> has_key None" by (simp add: has_key_def)
  have "data (fetchWeather None None example_ready) = None"
    and "loading (foldl exec example_ready (take 2 (fetchWeather_ops None None (lit ''Paris''))))
         = loading example_ready"
    using search_clears_first[where k = None and q = None and c = "lit ''Paris''" and s = example_ready] k by blast+
  then show ?thesis
    using k by (simp add: example_ready_def init_def status_def fetchWeather_nokey lit_def)
qed

text \<open>
  Claim C5. While the list is open with \<open>n > 0\<close> items and a valid highlight, the arrow
  keys change nothing but the highlight and move it cyclically: ArrowDown from \<open>-1\<close> or
  from \<open>n - 1\<close> gives \<open>0\<close> and otherwise adds one; ArrowUp from \<open>-1\<close> or from \<open>0\<close> gives
  \<open>n - 1\<close> and otherwise subtracts one.
\<close>

theorem arrow_keys_cycle:
  assumes "open' s" "length (suggestions s) = n" "0 < n"
    and "highlight s = - 1 \<or> (0 \<le> highlight s \<and> highlight s < int n)"
  shows "onKeyDown k ArrowDown s =
           s\<lparr>highlight := (if highlight s = - 1 \<or> highlight s = int n - 1 then 0
                            else highlight s + 1)\<rparr>
       \<and> onKeyDown k ArrowUp s =
           s\<lparr>highlight := (if highlight s = - 1 \<or> highlight s = 0 then int n - 1
                            else highlight s - 1)\<rparr>"
proof -
  have down: "move ArrowDown n (highlight s) =
      (if highlight s = - 1 \<or> highlight s = int n - 1 then 0 else highlight s + 1)"
    using assms(3,4) by (auto simp: move_def)
  have up: "move ArrowUp n (highlight s) =
      (if highlight s = - 1 \<or> highlight s = 0 then int n - 1 else highlight s - 1)"
    using assms(3,4) by (auto simp: move_def)
  show ?thesis using assms(1,2) down up by (simp add: onKeyDown_def)
qed

theorem arrow_keys_cycle_witness:
  "open' example_open \<and> length (suggestions example_open) = 2 \<and> highlight example_open = - 1
   \<and> highlight (onKeyDown example_key ArrowDown example_open) = 0
   \<and> highlight (onKeyDown example_key ArrowUp example_open) = 1
   \<and> highlight (onKeyDown example_key ArrowDown
        (onKeyDown example_key ArrowUp example_open)) = 0
   \<and> highlight (onKeyDown example_key ArrowUp
        (onKeyDown example_key ArrowDown example_open)) = 1"
proof -
  have a: "open' example_open" "length (suggestions example_open) = 2"
    "highlight example_open = - 1"
    by (simp_all add: example_open_state)
  have s0: "onKeyDown example_key ArrowDown example_open = example_open\<lparr>highlight := 0\<rparr>
         \<and> onKeyDown example_key ArrowUp example_open = example_open\<lparr>highlight := 1\<rparr>"
    using arrow_keys_cycle[where s = example_open and n = 2 and k = example_key] a by simp
  have s1: "onKeyDown example_key ArrowDown (example_open\<lparr>highlight := 1\<rparr>)
              = example_open\<lparr>highlight := 0\<rparr>"
    using arrow_keys_cycle[where s = "example_open\<lparr>highlight := 1\<rparr>" and n = 2
        and k = example_key] a by simp
  have s2: "onKeyDown example_key ArrowUp (example_open\<lparr>highlight := 0\<rparr>)
              = example_open\<lparr>highlight := 1\<rparr>"
    using arrow_keys_cycle[where s = "example_open\<lparr>highlight := 0\<rparr>" and n = 2
        and k = example_key] a by simp
  show ?thesis using a s0 s1 s2 by simp
qed

text \<open>
  Claim C6. When the geocoding request fails (the fetch rejects, the response is not ok,
  or its body cannot be read), the answer empties the items, closes the list and resets
  the highlight, and leaves the weather search alone: error, result, loading flag and
  hence the status are what they were.
\<close>

theorem lookup_failure_silent:
  assumes "r = GeoReject \<or> r = GeoNotOk \<or> r = GeoBadBody" "0 < geo_inflight s"
  shows "suggestions (step k s (GeoResponse r)) = []
       \<and> \<not> open' (step k s (GeoResponse r))
       \<and> highlight (step k s (GeoResponse r)) = - 1
       \<and> error (step k s (GeoResponse r)) = error s
       \<and> data (step k s (GeoResponse r)) = data s
       \<and> loading (step k s (GeoResponse r)) = loading s
       \<and> status (step k s (GeoResponse r)) = status s
       \<and> weather_calls (step k s (GeoResponse r)) = weather_calls s"
  using assms by (auto simp: status_def)

theorem lookup_failure_silent_witness:
  "0 < geo_inflight example_pending
   \<and> suggestions (step example_key example_pending (GeoResponse GeoNotOk)) = []
   \<and> \<not> open' (step example_key example_pending (GeoResponse GeoNotOk))
   \<and> highlight (step example_key example_pending (GeoResponse GeoNotOk)) = - 1
   \<and> status (step example_key example_pending (GeoResponse GeoNotOk)) = Idle"
proof -
  have a: "0 < geo_inflight example_pending" by (simp add: example_pending_state)
  have "status example_pending = Idle" by (simp add: example_pending_state status_def)
  then show ?thesis
    using a lookup_failure_silent[where r = GeoNotOk and s = example_pending and k = example_key]
    by simp
qed

text \<open>
  Claim C9. Enter with the list open and a valid highlight picks the highlighted
  suggestion: the input's text becomes its value, the list closes, the highlight resets
  and the weather search runs with that value. Otherwise, in particular with the list
  closed, the search runs with no argument, which is the search of the input's current
  text.
\<close>

theorem enter_key:
  "(open' s \<and> 0 \<le> highlight s \<and> highlight s < int (length (suggestions s)) \<longrightarrow>
      onKeyDown k Enter s = pick k (suggestions s ! nat (highlight s)) s
      \<and> onKeyDown k Enter s =
          fetchWeather k (Some (value' (suggestions s ! nat (highlight s))))
            (s\<lparr>city := value' (suggestions s ! nat (highlight s)),
               open' := False, highlight := - 1\<rparr>)
      \<and> city (onKeyDown k Enter s) = value' (suggestions s ! nat (highlight s))
      \<and> \<not> open' (onKeyDown k Enter s)
      \<and> highlight (onKeyDown k Enter s) = - 1)
   \<and> (\<not> (open' s \<and> 0 \<le> highlight s \<and> highlight s < int (length (suggestions s))) \<longrightarrow>
      onKeyDown k Enter s = fetchWeather k None s
      \<and> onKeyDown k Enter s = fetchWeather k (Some (city s)) s
      \<and> city (onKeyDown k Enter s) = city s)"
proof -
  have raw: "fetchWeather k None s = fetchWeather k (Some (city s)) s"
    by (simp add: fetchWeather_def fetchWeather_ops_def weather_query_def)
  show ?thesis
    by (auto simp: onKeyDown_def pick_def raw)
qed

theorem enter_key_witness:
  "weather_calls (onKeyDown example_key Enter (example_open\<lparr>highlight := 1\<rparr>)) = [lit ''Paris,US'']
   \<and> city (onKeyDown example_key Enter (example_open\<lparr>highlight := 1\<rparr>)) = lit ''Paris,US''
   \<and> \<not> open' (onKeyDown example_key Enter (example_open\<lparr>highlight := 1\<rparr>))
   \<and> highlight (onKeyDown example_key Enter (example_open\<lparr>highlight := 1\<rparr>)) = - 1
   \<and> weather_calls (onKeyDown example_key Enter (example_open\<lparr>open' := False\<rparr>)) = [lit ''Pa'']
   \<and> city (onKeyDown example_key Enter (example_open\<lparr>open' := False\<rparr>)) = lit ''Pa''"
proof -
  let ?s = "example_open\<lparr>highlight := 1\<rparr>" and ?t = "example_open\<lparr>open' := False\<rparr>"
  have hs: "open' ?s \<and> 0 \<le> highlight ?s \<and> highlight ?s < int (length (suggestions ?s))"
    by (simp add: example_open_state)
  have vs: "value' (suggestions ?s ! nat (highlight ?s)) = lit ''Paris,US''"
    by (simp add: example_open_state)
  have ht: "\<not> (open' ?t \<and> 0 \<le> highlight ?t \<and> highlight ?t < int (length (suggestions ?t)))"
    by simp
  have ct: "city ?t = lit ''Pa''" by (simp add: example_open_state)
  have 1: "onKeyDown example_key Enter ?s =
      fetchWeather example_key (Some (lit ''Paris,US''))
        (?s\<lparr>city := lit ''Paris,US'', open' := False, highlight := - 1\<rparr>)"
    using enter_key[where s = ?s and k = example_key] hs unfolding vs by blast
  have 2: "onKeyDown example_key Enter ?t = fetchWeather example_key (Some (lit ''Pa'')) ?t"
    using enter_key[where s = ?t and k = example_key] ht unfolding ct by blast
  have q1: "fetchWeather_ops example_key (Some (lit ''Paris,US'')) c =
      [SetError [], SetData None, SetLoading True, Fetch (lit ''Paris,US'')]" for c
    by code_simp
  have q2: "fetchWeather_ops example_key (Some (lit ''Pa'')) c =
      [SetError [], SetData None, SetLoading True, Fetch (lit ''Pa'')]" for c
    by code_simp
  show ?thesis
    unfolding 1 2 by (simp add: fetchWeather_def q1 q2 example_open_state)
qed

text \<open>
  Claim C8, as stated: each entry maps to the label \<open>name[, state][, country]\<close> and the
  value \<open>name[,country]\<close>, each optional part joined by comma where the field is present.
  An entry whose state is the empty string has the field, and its label leaves it out.
\<close>

theorem suggestion_mapping_counterexample:
  "to_suggestion paris_blank = \<lparr> label = lit ''Paris, FR'', value' = lit ''Paris,FR'' \<rparr>
   \<and> stated_suggestion paris_blank = \<lparr> label = lit ''Paris, , FR'', value' = lit ''Paris,FR'' \<rparr>
   \<and> to_suggestion paris_blank \<noteq> stated_suggestion paris_blank"
  by (simp add: to_suggestion_def stated_suggestion_def paris_blank_def lit_def)

text \<open>
  Claim C8, amended: every geocoding request the page issues asks for at most 6 results
  (\<open>limit = 6\<close>), and a successful answer maps each entry to label
  \<open>name[, state][, country]\<close> and value \<open>name[,country]\<close>, each optional part joined by comma
  where the field is present and not the empty string; on entries without an empty
  field this is the mapping as stated. In particular the entry with name ``Paris'' and
  country ``FR'' maps to the label ``Paris, FR'' and the value ``Paris,FR''.
\<close>

theorem suggestion_mapping:
  "to_suggestion it = spec_suggestion it
   \<and> (state it \<noteq> Some [] \<and> country it \<noteq> Some [] \<longrightarrow> to_suggestion it = stated_suggestion it)
   \<and> suggestions (lookup_done (GeoBody (Some xs)) s) = map spec_suggestion xs
   \<and> (reachable k s \<longrightarrow> (\<forall>c \<in> set (geo_calls s). snd c = 6))
   \<and> to_suggestion \<lparr> name = lit ''Paris'', state = None, country = Some (lit ''FR'') \<rparr>
       = \<lparr> label = lit ''Paris, FR'', value' = lit ''Paris,FR'' \<rparr>"
proof -
  have "map to_suggestion xs = map spec_suggestion xs"
    by (simp add: to_suggestion_spec)
  then have "suggestions (lookup_done (GeoBody (Some xs)) s) = map spec_suggestion xs"
    by (simp add: Let_def)
  moreover have "to_suggestion \<lparr> name = lit ''Paris'', state = None, country = Some (lit ''FR'') \<rparr>
       = \<lparr> label = lit ''Paris, FR'', value' = lit ''Paris,FR'' \<rparr>"
    by (simp add: to_suggestion_def lit_def)
  moreover have "to_suggestion it = stated_suggestion it"
    if "state it \<noteq> Some [] \<and> country it \<noteq> Some []"
    using that by (simp add: to_suggestion_spec spec_stated)
  ultimately show ?thesis using to_suggestion_spec reachable_limit by blast
qed

theorem suggestion_mapping_witness:
  "reachable example_key example_open
   \<and> geo_calls example_open = [(lit ''Pa'', 6)]
   \<and> suggestions example_open = map spec_suggestion [paris, paris_tx]
   \<and> spec_suggestion paris_tx = \<lparr> label = lit ''Paris, Texas, US'', value' = lit ''Paris,US'' \<rparr>
   \<and> stated_suggestion paris_tx = \<lparr> label = lit ''Paris, Texas, US'', value' = lit ''Paris,US'' \<rparr>"
proof -
  have a: "map to_suggestion [paris, paris_tx] = map spec_suggestion [paris, paris_tx]"
    using suggestion_mapping[where it = paris] suggestion_mapping[where it = paris_tx] by simp
  have b: "map to_suggestion [paris, paris_tx] = suggestions example_open"
    by (simp add: example_open_state to_suggestion_def paris_def paris_tx_def lit_def)
  have c: "spec_suggestion paris_tx = to_suggestion paris_tx"
    using suggestion_mapping[where it = paris_tx] by simp
  have h: "state paris_tx \<noteq> Some [] \<and> country paris_tx \<noteq> Some []"
    by (simp add: paris_tx_def lit_def)
  have d: "stated_suggestion paris_tx = to_suggestion paris_tx"
    using conjunct1[OF conjunct2[OF suggestion_mapping[where it = paris_tx]]] h by simp
  show ?thesis
    using a b example_open_reachable unfolding c d
    by (simp add: example_open_state to_suggestion_def paris_tx_def lit_def)
qed

text \<open>
  Claim C3. On a reachable page at most one timer is armed; a timer's callback can run
  only for the timer \<open>debounceRef\<close> holds, the one armed last; a keystroke leaves armed
  either nothing or only the timer it arms, due 250 ms later with its own text. Hence,
  for keystrokes each arriving less than 250 ms after the one before, whatever else
  happens in between and afterwards, at most one geocoding request is issued from the
  first keystroke on, and it asks for the text of the last keystroke.
\<close>

theorem debounce_coalescing:
  assumes "reachable k s"
  shows "length (timers s) \<le> 1
       \<and> (\<forall>i. step k s (TimerFire i) \<noteq> s \<longrightarrow> debounceRef s = Some i)
       \<and> (timers (step k s (Change v)) = []
          \<or> timers (step k s (Change v)) = [(next_timer s, now s + 250, v)])
       \<and> (within_quiet 0 evs \<longrightarrow>
            geo_calls (run k s (Change v # evs)) = geo_calls s
          \<or> geo_calls (run k s (Change v # evs)) = geo_calls s @ [(last_text v evs, 6)])"
proof -
  have inv: "timer_inv k s" by (rule reachable_timer_inv[OF assms])
  have one: "length (timers s) \<le> 1" using inv by (simp add: timer_inv_def)
  have latest: "\<forall>i. step k s (TimerFire i) \<noteq> s \<longrightarrow> debounceRef s = Some i"
    using fire_changes[OF inv] by blast
  have inv': "timer_inv k (s\<lparr>city := v\<rparr>)" using inv by (simp add: timer_inv_def)
  have arm: "timers (step k s (Change v)) = []
          \<or> timers (step k s (Change v)) = [(next_timer s, now s + 250, v)]"
    using lookup_timers(2)[OF inv', of v] by (auto simp: onChange_def)
  have burst: "geo_calls (run k s (Change v # evs)) = geo_calls s
          \<or> geo_calls (run k s (Change v # evs)) = geo_calls s @ [(last_text v evs, 6)]"
    if q: "within_quiet 0 evs"
  proof -
    have "burst_inv k (step k s (Change v)) 0 v (geo_calls s)"
      using burst_onChange[OF inv, of v] by simp
    from burst_run[OF this q] obtain e' where
      "burst_inv k (run k (step k s (Change v)) evs) e' (last_text v evs) (geo_calls s)"
      by blast
    from burst_calls[OF this] show ?thesis by (simp only: run_Cons)
  qed
  from one latest arm burst show ?thesis by blast
qed

theorem debounce_coalescing_witness:
  "reachable example_key example_open
   \<and> within_quiet 0 example_burst
   \<and> last_text (lit ''Pa'') example_burst = lit ''Pari''
   \<and> geo_calls (run example_key example_open (Change (lit ''Pa'') # example_burst))
       = geo_calls example_open @ [(lit ''Pari'', 6)]
   \<and> timers (step example_key example_open (Change (lit ''Pa''))) = [(2, 500, lit ''Pa'')]"
proof -
  have q: "within_quiet 0 example_burst" by (simp add: example_burst_def)
  have l: "last_text (lit ''Pa'') example_burst = lit ''Pari''" by (simp add: example_burst_def)
  have c: "geo_calls (run example_key example_open (Change (lit ''Pa'') # example_burst))
       \<noteq> geo_calls example_open"
    by code_simp
  have t: "timers (step example_key example_open (Change (lit ''Pa''))) \<noteq> []"
    by code_simp
  have n: "next_timer example_open = 2" "now example_open + 250 = 500"
    by (simp_all add: example_open_state)
  show ?thesis
    using debounce_coalescing[OF example_open_reachable, where v = "lit ''Pa''"
        and evs = example_burst] q l c t n example_open_reachable
    by simp
qed

text \<open>
  Claim C4. On a reachable page, an input change to a text whose trimmed length is below
  2 issues no geocoding request, leaves no timer armed, and leaves the items empty, the
  list closed and the highlight at \<open>-1\<close>; until the next input change no geocoding
  request follows.
\<close>

theorem short_query_clears:
  assumes "reachable k s" "length (trim v) < 2"
  shows "suggestions (step k s (Change v)) = []
       \<and> \<not> open' (step k s (Change v))
       \<and> highlight (step k s (Change v)) = - 1
       \<and> timers (step k s (Change v)) = []
       \<and> geo_calls (step k s (Change v)) = geo_calls s
       \<and> geo_inflight (step k s (Change v)) = geo_inflight s
       \<and> ((\<forall>w. Change w \<notin> set evs) \<longrightarrow>
            geo_calls (run k s (Change v # evs)) = geo_calls s)"
proof -
  let ?s = "s\<lparr>city := v\<rparr>"
  have inv: "timer_inv k ?s" using reachable_timer_inv[OF assms(1)] by (simp add: timer_inv_def)
  have calls: "geo_calls (step k s (Change v)) = geo_calls s"
    "geo_inflight (step k s (Change v)) = geo_inflight s"
    using lookup_timers(3,4)[OF inv, of v] by (simp_all add: onChange_def)
  have cleared: "suggestions (step k s (Change v)) = [] \<and> \<not> open' (step k s (Change v))
       \<and> highlight (step k s (Change v)) = - 1 \<and> timers (step k s (Change v)) = []"
  proof (cases "has_key k")
    case True
    then show ?thesis using lookup_short[OF inv True, of v] assms(2) by (simp add: onChange_def)
  next
    case False
    then show ?thesis using reachable_nokey_inv[OF assms(1) False]
      by (simp add: onChange_def lookup_def nokey_inv_def)
  qed
  have later: "geo_calls (run k s (Change v # evs)) = geo_calls s"
    if nc: "\<forall>w. Change w \<notin> set evs"
  proof -
    have "timers (step k s (Change v)) = []" using cleared by blast
    from quiet_run[OF this nc, of k] show ?thesis using calls(1) by (simp add: run_Cons)
  qed
  from calls cleared later show ?thesis by blast
qed

theorem short_query_clears_witness:
  "reachable example_key example_typing
   \<and> length (trim (lit '' P '')) < 2
   \<and> timers example_typing = [(2, 500, lit ''Par'')]
   \<and> open' example_typing
   \<and> suggestions (step example_key example_typing (Change (lit '' P ''))) = []
   \<and> \<not> open' (step example_key example_typing (Change (lit '' P '')))
   \<and> highlight (step example_key example_typing (Change (lit '' P ''))) = - 1
   \<and> timers (step example_key example_typing (Change (lit '' P ''))) = []
   \<and> geo_calls (run example_key example_typing
        [Change (lit '' P ''), Elapse 250, TimerFire 2, Elapse 250, TimerFire 3])
       = [(lit ''Pa'', 6)]"
proof -
  have t: "length (trim (lit '' P '')) < 2" by (simp add: trim_def lit_def is_ws_def)
  have e: "\<forall>w. Change w \<notin> set [Elapse 250, TimerFire 2, Elapse 250, TimerFire 3]" by simp
  show ?thesis
    using short_query_clears[OF example_typing_reachable t,
        where evs = "[Elapse 250, TimerFire 2, Elapse 250, TimerFire 3]"] e t
      example_typing_reachable
    by (simp add: example_typing_state)
qed

end
